theory Spec2Isabelle
  imports Main "HOL-Library.Word"
begin

section \<open>Data model\<close>

text \<open>
  A \<^verbatim>\<open>Uint8Array\<close> is a list of 8-bit words. A JavaScript string is a \<open>string\<close>,
  one \<open>char\<close> per UTF-16 code unit: the model covers the code units \<open>0x00\<close> to \<open>0xFF\<close>
  (every string the library builds itself is ASCII). A JavaScript \<^verbatim>\<open>number\<close> that
  holds an integer, and a \<^verbatim>\<open>bigint\<close>, are \<open>int\<close>.
\<close>

type_synonym byte = "8 word"
type_synonym bytes = "byte list"

datatype curve = X25519 | X448

datatype hash_alg = SHA256 | SHA512

text \<open>
  The exceptions the code can raise. \<open>InvalidKeyLength n\<close> is the
  \<^verbatim>\<open>Error("Invalid key length, received key of length n and expected length 32.")\<close>
  of \<^verbatim>\<open>xEncode\<close>; \<open>RangeError\<close>, \<open>TypeError\<close>, \<open>SyntaxError\<close> and
  \<open>ReferenceError\<close> are the built-in exceptions (a typed-array write or a
  \<^verbatim>\<open>Buffer\<close> read out of range, a method call on \<^verbatim>\<open>null\<close>, a string that
  \<^verbatim>\<open>BigInt\<close> cannot parse, a name that nothing declares); \<open>BufferShortage\<close> is the
  \<^verbatim>\<open>Error("BUFFER_SHORTAGE")\<close> of the codec, for a buffer that ends before the value
  does; \<open>CodecError\<close> is whatever else the codec throws.
\<close>

datatype error =
    InvalidKeyLength nat
  | RangeError
  | TypeError
  | SyntaxError
  | ReferenceError
  | BufferShortage
  | CodecError

text \<open>\<^verbatim>\<open>xConstants\<close> as \<^verbatim>\<open>src/index.ts\<close> declares it.\<close>

record XConstants =
  CURVE :: curve
  HASH :: hash_alg
  KEY_LENGTH :: nat
  INFO :: string
  MIN_OTK_SUPPLY :: nat

definition xConstants :: XConstants where
  "xConstants = \<lparr>CURVE = X25519, HASH = SHA512, KEY_LENGTH = 32, INFO = ''xhat'',
     MIN_OTK_SUPPLY = 100\<rparr>"

text \<open>
  The file that declares the class \<^verbatim>\<open>XUtils\<close> with \<^verbatim>\<open>packMessage\<close> and
  \<^verbatim>\<open>unpackMessage\<close> has one more field in its \<^verbatim>\<open>xConstants\<close>:
  \<^verbatim>\<open>HEADER_SIZE: 32\<close>.
\<close>

definition HEADER_SIZE :: nat where
  "HEADER_SIZE = 32"

section \<open>Typed arrays\<close>

text \<open>
  \<^verbatim>\<open>target.set(source, offset)\<close> copies \<open>source\<close> into \<open>target\<close> from index
  \<open>offset\<close> on, and throws a \<^verbatim>\<open>RangeError\<close> when the source does not fit.
\<close>

definition set_u8 :: "bytes \<Rightarrow> bytes \<Rightarrow> nat \<Rightarrow> error + bytes" where
  "set_u8 target source offset =
     (if offset + length source > length target then Inl RangeError
      else Inr (take offset target @ source @ drop (offset + length source) target))"

text \<open>
  \<^verbatim>\<open>Uint8Array.from(numbers)\<close> and \<^verbatim>\<open>new Uint8Array(numbers)\<close> store each integer
  modulo 256; \<^verbatim>\<open>NaN\<close> (here \<open>None\<close>) is stored as 0.
\<close>

definition Uint8Array_from :: "int list \<Rightarrow> bytes" where
  "Uint8Array_from numbers = map word_of_int numbers"

definition ToUint8 :: "int option \<Rightarrow> byte" where
  "ToUint8 v = (case v of None \<Rightarrow> 0 | Some i \<Rightarrow> word_of_int i)"

text \<open>
  Arrays are objects: a store maps each reference to the bytes of its array, and
  \<open>next_ref\<close> is the first reference not yet allocated. \<^verbatim>\<open>new Uint8Array(n)\<close>
  allocates \<open>n\<close> zero bytes.
\<close>

record store =
  mem :: "nat \<Rightarrow> bytes"
  next_ref :: nat

definition new_Uint8Array :: "nat \<Rightarrow> store \<Rightarrow> nat \<times> store" where
  "new_Uint8Array n h =
     (next_ref h,
      h\<lparr>mem := (mem h)(next_ref h := replicate n 0), next_ref := Suc (next_ref h)\<rparr>)"

text \<open>
  \<^verbatim>\<open>new Int8Array(buf)\<close> reads the same bytes as signed values; an index past the
  end reads \<^verbatim>\<open>undefined\<close> (here \<open>None\<close>).
\<close>

definition Int8Array_view :: "bytes \<Rightarrow> int list" where
  "Int8Array_view buf = map sint buf"

definition typed_get :: "int list \<Rightarrow> nat \<Rightarrow> int option" where
  "typed_get dv i = (if i < length dv then Some (dv ! i) else None)"

section \<open>Strings and numbers of the language\<close>

definition code_unit :: "char \<Rightarrow> nat" where
  "code_unit c = of_char c"

text \<open>
  The line terminators, which \<^verbatim>\<open>.\<close> in a regular expression does not match, and the
  white space that \<^verbatim>\<open>parseInt\<close> and \<^verbatim>\<open>BigInt\<close> skip: those below \<open>0x100\<close>.
\<close>

definition is_line_terminator :: "char \<Rightarrow> bool" where
  "is_line_terminator c = (code_unit c = 0x0A \<or> code_unit c = 0x0D)"

definition is_white_space :: "char \<Rightarrow> bool" where
  "is_white_space c = (code_unit c \<in> {0x09, 0x0A, 0x0B, 0x0C, 0x0D, 0x20, 0xA0})"

text \<open>The value of a digit or letter as a digit, and digit strings in radix \<open>R\<close>.\<close>

definition digit_value :: "char \<Rightarrow> nat option" where
  "digit_value c =
     (let n = code_unit c in
      if 48 \<le> n \<and> n \<le> 57 then Some (n - 48)
      else if 97 \<le> n \<and> n \<le> 122 then Some (n - 87)
      else if 65 \<le> n \<and> n \<le> 90 then Some (n - 55)
      else None)"

definition radix_digit :: "nat \<Rightarrow> char \<Rightarrow> nat option" where
  "radix_digit R c =
     (case digit_value c of None \<Rightarrow> None | Some d \<Rightarrow> if d < R then Some d else None)"

definition is_radix_digit :: "nat \<Rightarrow> char \<Rightarrow> bool" where
  "is_radix_digit R c = (radix_digit R c \<noteq> None)"

fun digits_value :: "nat \<Rightarrow> nat \<Rightarrow> string \<Rightarrow> nat option" where
  "digits_value R acc [] = Some acc"
| "digits_value R acc (c # cs) =
     (case radix_digit R c of None \<Rightarrow> None | Some d \<Rightarrow> digits_value R (R * acc + d) cs)"

text \<open>
  \<^verbatim>\<open>n.toString(16)\<close> for an integer \<open>n\<close> (one that the number holds exactly):
  lowercase digits, no leading zero, a minus sign for a negative number.
\<close>

definition hexchar :: "nat \<Rightarrow> char" where
  "hexchar d = ''0123456789abcdef'' ! d"

fun hex_digits :: "nat \<Rightarrow> string" where
  "hex_digits n =
     (if n < 16 then [hexchar n] else hex_digits (n div 16) @ [hexchar (n mod 16)])"

declare hex_digits.simps [simp del]

definition Number_toString16 :: "int \<Rightarrow> string" where
  "Number_toString16 n =
     (if n < 0 then CHR ''-'' # hex_digits (nat (- n)) else hex_digits (nat n))"

text \<open>\<^verbatim>\<open>s.padStart(targetLength, padString)\<close>.\<close>

definition padStart :: "nat \<Rightarrow> string \<Rightarrow> string \<Rightarrow> string" where
  "padStart targetLength padString s =
     (if targetLength \<le> length s \<or> padString = [] then s
      else take (targetLength - length s)
             (concat (replicate (targetLength - length s) padString)) @ s)"

text \<open>
  \<^verbatim>\<open>parseInt(string, 16)\<close>: skips leading white space, reads a sign, drops a
  \<^verbatim>\<open>0x\<close> prefix, and reads hex digits up to the first other character;
  \<^verbatim>\<open>NaN\<close> (here \<open>None\<close>) when there is no digit.
\<close>

definition parseInt16 :: "string \<Rightarrow> int option" where
  "parseInt16 string =
     (let S = dropWhile is_white_space string;
          sign = (if S \<noteq> [] \<and> hd S = CHR ''-'' then - 1 else 1 :: int);
          S1 = (if S \<noteq> [] \<and> (hd S = CHR ''+'' \<or> hd S = CHR ''-'') then tl S else S);
          S2 = (if 2 \<le> length S1 \<and> (take 2 S1 = ''0x'' \<or> take 2 S1 = ''0X'')
                then drop 2 S1 else S1);
          Z = takeWhile (is_radix_digit 16) S2
      in if Z = [] then None
         else (case digits_value 16 0 Z of None \<Rightarrow> None | Some v \<Rightarrow> Some (sign * int v)))"

text \<open>
  \<^verbatim>\<open>BigInt(str)\<close> on a string: white space is trimmed on both sides; the rest is
  empty (0), a hex, octal or binary literal with its prefix, or a decimal number with an
  optional sign; anything else throws a \<^verbatim>\<open>SyntaxError\<close>.
\<close>

definition trim :: "string \<Rightarrow> string" where
  "trim s = rev (dropWhile is_white_space (rev (dropWhile is_white_space s)))"

definition nondecimal_literal :: "nat \<Rightarrow> string \<Rightarrow> error + int" where
  "nondecimal_literal R ds =
     (if ds = [] then Inl SyntaxError
      else (case digits_value R 0 ds of None \<Rightarrow> Inl SyntaxError | Some v \<Rightarrow> Inr (int v)))"

definition BigInt_of_string :: "string \<Rightarrow> error + int" where
  "BigInt_of_string str =
     (let t = trim str in
      if t = [] then Inr 0
      else if 2 \<le> length t \<and> (take 2 t = ''0x'' \<or> take 2 t = ''0X'') then
        nondecimal_literal 16 (drop 2 t)
      else if 2 \<le> length t \<and> (take 2 t = ''0o'' \<or> take 2 t = ''0O'') then
        nondecimal_literal 8 (drop 2 t)
      else if 2 \<le> length t \<and> (take 2 t = ''0b'' \<or> take 2 t = ''0B'') then
        nondecimal_literal 2 (drop 2 t)
      else
        (let sign = (if hd t = CHR ''-'' then - 1 else 1 :: int);
             ds = (if hd t = CHR ''+'' \<or> hd t = CHR ''-'' then tl t else t)
         in if ds = [] then Inl SyntaxError
            else (case digits_value 10 0 ds of
                    None \<Rightarrow> Inl SyntaxError
                  | Some v \<Rightarrow> Inr (sign * int v))))"

text \<open>
  The remainder \<^verbatim>\<open>n % d\<close> of two big integers takes the sign of \<open>n\<close>, and throws a
  \<^verbatim>\<open>RangeError\<close> when \<open>d\<close> is zero.
\<close>

definition bigint_rem :: "int \<Rightarrow> int \<Rightarrow> error + int" where
  "bigint_rem n d = (if d = 0 then Inl RangeError else Inr (sgn n * (\<bar>n\<bar> mod \<bar>d\<bar>)))"

text \<open>
  \<^verbatim>\<open>hexString.match(/.{1,2}/g)\<close>: from left to right, groups of two characters
  that are not line terminators, or of one when the next character is a line terminator
  or the end; line terminators are skipped. The empty list stands for \<^verbatim>\<open>null\<close> (no
  match).
\<close>

fun regex_match_groups :: "string \<Rightarrow> string list" where
  "regex_match_groups [] = []"
| "regex_match_groups [c] = (if is_line_terminator c then [] else [[c]])"
| "regex_match_groups (c # d # cs) =
     (if is_line_terminator c then regex_match_groups (d # cs)
      else if is_line_terminator d then [c] # regex_match_groups (d # cs)
      else [c, d] # regex_match_groups cs)"

text \<open>
  The unsigned integer that a byte sequence holds in big-endian order, and
  \<^verbatim>\<open>buf.readUIntBE(offset, byteLength)\<close> of Node's \<^verbatim>\<open>Buffer\<close>, which reads it: the
  byte length must be between 1 and 6 and the bytes must lie inside the buffer, or the
  call throws a \<^verbatim>\<open>RangeError\<close>.
\<close>

definition be_nat :: "bytes \<Rightarrow> nat" where
  "be_nat bs = foldl (\<lambda>acc b. 256 * acc + unat b) 0 bs"

definition readUIntBE :: "bytes \<Rightarrow> nat \<Rightarrow> nat \<Rightarrow> error + int" where
  "readUIntBE buf offset byteLength =
     (if byteLength < 1 \<or> 6 < byteLength then Inl RangeError
      else if length buf < offset + byteLength then Inl RangeError
      else Inr (int (be_nat (take byteLength (drop offset buf)))))"

section \<open>The functions of \<^verbatim>\<open>index.ts\<close>\<close>

subsection \<open>\<^verbatim>\<open>xConcat\<close>\<close>

text \<open>
  \<^verbatim>\<open>xConcat(...arrays)\<close> takes references to arrays. It allocates the result and
  copies each argument into it with \<^verbatim>\<open>result.set(array, length)\<close>; the arguments are
  only read. \<open>xConcat_loop\<close> is the \<^verbatim>\<open>for (const array of arrays)\<close> loop.
\<close>

fun xConcat_loop :: "nat list \<Rightarrow> nat \<Rightarrow> nat \<Rightarrow> store \<Rightarrow> error + store" where
  "xConcat_loop [] result len h = Inr h"
| "xConcat_loop (array # arrays) result len h =
     (case set_u8 (mem h result) (mem h array) len of
        Inl e \<Rightarrow> Inl e
      | Inr written \<Rightarrow>
          xConcat_loop arrays result (len + length (mem h array))
            (h\<lparr>mem := (mem h)(result := written)\<rparr>))"

definition xConcat :: "nat list \<Rightarrow> store \<Rightarrow> error + (nat \<times> store)" where
  "xConcat arrays h =
     (let totalLength = foldl (\<lambda>acc v. acc + length (mem h v)) 0 arrays
      in if length arrays = 0 then Inr (new_Uint8Array 0 h)
         else (let (result, h1) = new_Uint8Array totalLength h
               in case xConcat_loop arrays result 0 h1 of
                    Inl e \<Rightarrow> Inl e
                  | Inr h2 \<Rightarrow> Inr (result, h2)))"

text \<open>
  A call of \<^verbatim>\<open>xConcat\<close> on array values, for a caller that only uses the bytes of
  the result: the arguments are put in a store of their own, argument \<open>i\<close> at
  reference \<open>i\<close>.
\<close>

definition xConcat_bytes :: "bytes list \<Rightarrow> error + bytes" where
  "xConcat_bytes args =
     (case xConcat [0..<length args]
             \<lparr>mem = (\<lambda>r. if r < length args then args ! r else []),
              next_ref = length args\<rparr> of
        Inl e \<Rightarrow> Inl e
      | Inr (result, h) \<Rightarrow> Inr (mem h result))"

subsection \<open>\<^verbatim>\<open>keyLength\<close>, \<^verbatim>\<open>xMakeSalt\<close> and \<^verbatim>\<open>xKDF\<close>\<close>

definition keyLength :: "curve \<Rightarrow> nat" where
  "keyLength c = (if c = X25519 then 32 else 57)"

text \<open>
  The loop \<^verbatim>\<open>for (let i = 0; i < saltLength; i++) { salt.set([0xff]); }\<close>: the call
  has no offset, so every round writes at index 0.
\<close>

function xMakeSalt_loop :: "nat \<Rightarrow> nat \<Rightarrow> bytes \<Rightarrow> error + bytes" where
  "xMakeSalt_loop i saltLength salt =
     (if i < saltLength then
        (case set_u8 salt [0xFF] 0 of
           Inl e \<Rightarrow> Inl e
         | Inr salt' \<Rightarrow> xMakeSalt_loop (i + 1) saltLength salt')
      else Inr salt)"
  by pat_completeness auto
termination
  by (relation "measure (\<lambda>(i, saltLength, salt). saltLength - i)") auto

declare xMakeSalt_loop.simps [simp del]

definition xMakeSalt :: "curve \<Rightarrow> error + bytes" where
  "xMakeSalt c =
     (let saltLength = keyLength c;
          salt = replicate saltLength 0
      in xMakeSalt_loop 0 saltLength salt)"

text \<open>
  \<^verbatim>\<open>xKDF\<close>; the HKDF of the external library is the parameter \<open>hkdf\<close>, called
  with the key material, the output length, the salt, the info string and the hash.
\<close>

definition xKDF ::
  "(bytes \<Rightarrow> nat \<Rightarrow> bytes \<Rightarrow> string \<Rightarrow> hash_alg \<Rightarrow> bytes) \<Rightarrow> bytes \<Rightarrow> error + bytes" where
  "xKDF hkdf IKM =
     (case xMakeSalt (CURVE xConstants) of
        Inl e \<Rightarrow> Inl e
      | Inr salt \<Rightarrow>
          Inr (hkdf IKM (KEY_LENGTH xConstants) salt (INFO xConstants) (HASH xConstants)))"

section \<open>The class \<^verbatim>\<open>XUtils\<close>\<close>

subsection \<open>\<^verbatim>\<open>encodeHex\<close> and \<^verbatim>\<open>decodeHex\<close>\<close>

definition encodeHex :: "bytes \<Rightarrow> string" where
  "encodeHex bs =
     foldl (\<lambda>str byte. str @ padStart 2 ''0'' (Number_toString16 (uint byte))) [] bs"

text \<open>
  \<^verbatim>\<open>decodeHex\<close> checks nothing but the empty string. When the string has no
  group to match, \<^verbatim>\<open>match\<close> gives \<^verbatim>\<open>null\<close> and the call of \<^verbatim>\<open>map\<close> on it throws a
  \<^verbatim>\<open>TypeError\<close>.
\<close>

definition decodeHex :: "string \<Rightarrow> error + bytes" where
  "decodeHex hexString =
     (if length hexString = 0 then Inr []
      else (case regex_match_groups hexString of
              [] \<Rightarrow> Inl TypeError
            | g # gs \<Rightarrow> Inr (map (\<lambda>byte. ToUint8 (parseInt16 byte)) (g # gs))))"

subsection \<open>\<^verbatim>\<open>bytesEqual\<close>\<close>

text \<open>
  The loop \<^verbatim>\<open>for (let i = 0; i !== buf1.byteLength; i++)\<close> stops only when \<open>i\<close>
  meets the length, so it is a partial function: \<open>None\<close> would be a loop that never
  returns.
\<close>

partial_function (option) bytesEqual_loop ::
  "nat \<Rightarrow> nat \<Rightarrow> int list \<Rightarrow> int list \<Rightarrow> bool option" where
  "bytesEqual_loop i byteLength dv1 dv2 =
     (if i \<noteq> byteLength then
        (if typed_get dv1 i \<noteq> typed_get dv2 i then Some False
         else bytesEqual_loop (i + 1) byteLength dv1 dv2)
      else Some True)"

definition bytesEqual :: "bytes \<Rightarrow> bytes \<Rightarrow> bool option" where
  "bytesEqual buf1 buf2 =
     (if length buf1 \<noteq> length buf2 then Some False
      else (let dv1 = Int8Array_view buf1; dv2 = Int8Array_view buf2
            in bytesEqual_loop 0 (length buf1) dv1 dv2))"

subsection \<open>\<^verbatim>\<open>numberToUint8Arr\<close> and \<^verbatim>\<open>uint8ArrToNumber\<close>\<close>

text \<open>The loop \<^verbatim>\<open>while (str.length < 12) { str = "0" + str; }\<close>.\<close>

function numberToUint8Arr_loop :: "string \<Rightarrow> string" where
  "numberToUint8Arr_loop str =
     (if length str < 12 then numberToUint8Arr_loop (''0'' @ str) else str)"
  by pat_completeness auto
termination
  by (relation "measure (\<lambda>str. 12 - length str)") auto

declare numberToUint8Arr_loop.simps [simp del]

definition numberToUint8Arr :: "int \<Rightarrow> error + bytes" where
  "numberToUint8Arr n = decodeHex (numberToUint8Arr_loop (Number_toString16 n))"

definition uint8ArrToNumber :: "bytes \<Rightarrow> error + int" where
  "uint8ArrToNumber arr = readUIntBE arr 0 (length arr)"

subsection \<open>\<^verbatim>\<open>packMessage\<close> and \<^verbatim>\<open>unpackMessage\<close>\<close>


definition emptyHeader :: bytes where
  "emptyHeader = replicate HEADER_SIZE 0"

definition packMessage ::
  "('a \<Rightarrow> error + bytes) \<Rightarrow> 'a \<Rightarrow> bytes option \<Rightarrow> error + bytes" where
  "packMessage encode msg header =
     (case encode msg of
        Inl e \<Rightarrow> Inl e
      | Inr msgb \<Rightarrow>
          (let msgh = (case header of Some given \<Rightarrow> given | None \<Rightarrow> emptyHeader)
           in xConcat_bytes [msgh, msgb]))"

definition unpackMessage ::
  "(bytes \<Rightarrow> error + 'a) \<Rightarrow> bytes \<Rightarrow> error + (bytes \<times> 'a)" where
  "unpackMessage decode msg =
     (let msgp = msg;
          msgh = take HEADER_SIZE msgp
      in case decode (drop HEADER_SIZE msgp) of
           Inl e \<Rightarrow> Inl e
         | Inr msgb \<Rightarrow> Inr (msgh, msgb))"

section \<open>\<^verbatim>\<open>xEncode\<close>\<close>

definition isEven :: "int \<Rightarrow> error + bool" where
  "isEven v =
     (case bigint_rem v 2 of
        Inl e \<Rightarrow> Inl e
      | Inr r \<Rightarrow> if r = 0 then Inr True else Inr False)"

text \<open>
  \<^verbatim>\<open>xEncode\<close> of \<^verbatim>\<open>src/index.ts\<close>. \<^verbatim>\<open>bytes\<close> is an array of numbers: the tag
  of the curve, the parity of the key read as one hex number, then the bytes of the key;
  \<^verbatim>\<open>Uint8Array.from\<close> makes the result. The file calls \<^verbatim>\<open>encodeHex(publicKey)\<close>,
  and neither declares nor imports a name \<^verbatim>\<open>encodeHex\<close> (it imports
  \<^verbatim>\<open>KeyRingUtils\<close>, \<^verbatim>\<open>ed2curve\<close>, \<^verbatim>\<open>hkdf\<close> and \<^verbatim>\<open>nacl\<close>): looking the name
  up throws a \<^verbatim>\<open>ReferenceError\<close>, after the length check and the tag, before
  \<^verbatim>\<open>BigInt\<close> is called.
\<close>

definition undeclared_encodeHex :: "bytes \<Rightarrow> error + string" where
  "undeclared_encodeHex bs = Inl ReferenceError"

definition xEncode :: "curve \<Rightarrow> bytes \<Rightarrow> error + bytes" where
  "xEncode curveType publicKey =
     (if length publicKey \<noteq> 32 then Inl (InvalidKeyLength (length publicKey))
      else
        (let bytes0 = (case curveType of X25519 \<Rightarrow> [0] | X448 \<Rightarrow> [1 :: int])
         in case undeclared_encodeHex publicKey of
              Inl e \<Rightarrow> Inl e
            | Inr hex \<Rightarrow>
                (case BigInt_of_string (''0x'' @ hex) of
                   Inl e \<Rightarrow> Inl e
                 | Inr key \<Rightarrow>
                     (case isEven key of
                        Inl e \<Rightarrow> Inl e
                      | Inr ev \<Rightarrow>
                          (let bytes1 = (if ev then bytes0 @ [0] else bytes0 @ [1]);
                               bytes2 = foldl (\<lambda>bs byte. bs @ [uint byte]) bytes1 publicKey
                           in Inr (Uint8Array_from bytes2))))))"

text \<open>
  The copy of \<^verbatim>\<open>xEncode\<close> in the file that declares the class \<^verbatim>\<open>XUtils\<close>: the
  same statements, with \<^verbatim>\<open>XUtils.encodeHex(publicKey)\<close> where \<^verbatim>\<open>src/index.ts\<close>
  has the undeclared name.
\<close>

definition xEncode_XUtils :: "curve \<Rightarrow> bytes \<Rightarrow> error + bytes" where
  "xEncode_XUtils curveType publicKey =
     (if length publicKey \<noteq> 32 then Inl (InvalidKeyLength (length publicKey))
      else
        (let bytes0 = (case curveType of X25519 \<Rightarrow> [0] | X448 \<Rightarrow> [1 :: int])
         in case BigInt_of_string (''0x'' @ encodeHex publicKey) of
              Inl e \<Rightarrow> Inl e
            | Inr key \<Rightarrow>
                (case isEven key of
                   Inl e \<Rightarrow> Inl e
                 | Inr ev \<Rightarrow>
                     (let bytes1 = (if ev then bytes0 @ [0] else bytes0 @ [1]);
                          bytes2 = foldl (\<lambda>bs byte. bs @ [uint byte]) bytes1 publicKey
                      in Inr (Uint8Array_from bytes2)))))"

section \<open>Auxiliary notions for the proofs\<close>

text \<open>The two characters that \<^verbatim>\<open>encodeHex\<close> writes for a byte of value \<open>n\<close>.\<close>

definition hex_pair :: "nat \<Rightarrow> string" where
  "hex_pair n = [hexchar (n div 16), hexchar (n mod 16)]"

text \<open>
  A codec and a store for the concrete instances below: the bodies of the codec are
  single bytes (it rejects every input that is not one byte long); the store holds
  three arrays, at the references 0, 1 and 2.
\<close>

definition byte_encode :: "byte \<Rightarrow> error + bytes" where
  "byte_encode body = Inr [body]"

definition byte_decode :: "bytes \<Rightarrow> error + byte" where
  "byte_decode bs = (case bs of [b] \<Rightarrow> Inr b | _ \<Rightarrow> Inl CodecError)"

definition three_arrays :: store where
  "three_arrays =
     \<lparr>mem = (\<lambda>r. if r = 0 then [1, 2] else if r = 2 then [3] else []), next_ref = 3\<rparr>"

section \<open>Facts about hex digits and hex strings\<close>

lemma lt16_cases:
  assumes "d < (16::nat)"
  obtains "d = 0" | "d = 1" | "d = 2" | "d = 3" | "d = 4" | "d = 5" | "d = 6" | "d = 7"
    | "d = 8" | "d = 9" | "d = 10" | "d = 11" | "d = 12" | "d = 13" | "d = 14" | "d = 15"
proof -
  have "d = 0 \<or> d = 1 \<or> d = 2 \<or> d = 3 \<or> d = 4 \<or> d = 5 \<or> d = 6 \<or> d = 7
      \<or> d = 8 \<or> d = 9 \<or> d = 10 \<or> d = 11 \<or> d = 12 \<or> d = 13 \<or> d = 14 \<or> d = 15"
    using assms by arith
  then show thesis using that by blast
qed

lemma code_unit_hexchar:
  "d < 16 \<Longrightarrow> code_unit (hexchar d) = (if d < 10 then 48 + d else 87 + d)"
  by (erule lt16_cases) (simp_all add: hexchar_def code_unit_def)

lemma digit_value_hexchar: "d < 16 \<Longrightarrow> digit_value (hexchar d) = Some d"
  by (simp add: digit_value_def code_unit_hexchar Let_def)

lemma radix_digit_hexchar: "d < 16 \<Longrightarrow> radix_digit 16 (hexchar d) = Some d"
  by (simp add: radix_digit_def digit_value_hexchar)

lemma hexchar_not_line_terminator: "d < 16 \<Longrightarrow> \<not> is_line_terminator (hexchar d)"
  by (simp add: is_line_terminator_def code_unit_hexchar)

lemma hexchar_not_white_space: "d < 16 \<Longrightarrow> \<not> is_white_space (hexchar d)"
  by (simp add: is_white_space_def code_unit_hexchar)

lemma hexchar_neq:
  assumes "d < 16"
  shows "hexchar d \<noteq> CHR ''-''" "hexchar d \<noteq> CHR ''+''"
    and "hexchar d \<noteq> CHR ''x''" "hexchar d \<noteq> CHR ''X''"
  using assms by (auto elim!: lt16_cases simp: hexchar_def)

lemma hexchar_in_alphabet: "d < 16 \<Longrightarrow> hexchar d \<in> set ''0123456789abcdef''"
  by (erule lt16_cases) (simp_all add: hexchar_def)

lemma hex_digits_small: "n < 16 \<Longrightarrow> hex_digits n = [hexchar n]"
  by (subst hex_digits.simps) simp

lemma hex_digits_byte: "n < 256 \<Longrightarrow> 16 \<le> n \<Longrightarrow> hex_digits n = hex_pair n"
  by (subst hex_digits.simps) (simp add: hex_digits_small hex_pair_def)

lemma padStart_byte:
  "padStart 2 ''0'' (Number_toString16 (uint (b::byte))) = hex_pair (unat b)"
proof -
  have lt: "unat b < 256" using unsigned_less [of b] by simp
  have str: "Number_toString16 (uint b) = hex_digits (unat b)"
    by (simp add: Number_toString16_def)
  show ?thesis
  proof (cases "unat b < 16")
    case True
    then show ?thesis
      by (simp add: str hex_digits_small padStart_def hex_pair_def hexchar_def)
  next
    case False
    then show ?thesis
      using lt by (simp add: str hex_digits_byte padStart_def hex_pair_def)
  qed
qed

lemma foldl_append_acc:
  "foldl (\<lambda>str x. str @ f x) acc xs = acc @ concat (map f xs)"
  by (induction xs arbitrary: acc) simp_all

lemma encodeHex_concat: "encodeHex bs = concat (map (\<lambda>b. hex_pair (unat b)) bs)"
  by (simp add: encodeHex_def foldl_append_acc padStart_byte)

lemma length_encodeHex: "length (encodeHex bs) = 2 * length bs"
  by (induction bs) (simp_all add: encodeHex_concat hex_pair_def)

lemma set_encodeHex: "set (encodeHex bs) \<subseteq> set ''0123456789abcdef''"
proof -
  define A where "A = set ''0123456789abcdef''"
  have mem: "\<And>d. d < 16 \<Longrightarrow> hexchar d \<in> A"
    unfolding A_def by (rule hexchar_in_alphabet)
  have pair: "set (hex_pair (unat b)) \<subseteq> A" for b :: byte
  proof -
    have "unat b < 256" using unsigned_less [of b] by simp
    then have "unat b div 16 < 16" "unat b mod 16 < 16" by simp_all
    then show ?thesis by (simp add: hex_pair_def mem)
  qed
  have "set (encodeHex bs) \<subseteq> A"
    using pair by (auto simp: encodeHex_concat)
  then show ?thesis by (simp only: A_def)
qed

lemma parseInt16_hex_pair:
  assumes "n < 256"
  shows "parseInt16 (hex_pair n) = Some (int n)"
proof -
  have h: "n div 16 < 16" and l: "n mod 16 < 16" using assms by simp_all
  show ?thesis
    using hexchar_not_white_space [OF h] hexchar_neq [OF h] hexchar_neq [OF l]
      radix_digit_hexchar [OF h] radix_digit_hexchar [OF l]
    by (simp add: parseInt16_def hex_pair_def is_radix_digit_def)
qed

lemma ToUint8_parseInt16_hex_pair:
  "ToUint8 (parseInt16 (hex_pair (unat (b::byte)))) = b"
proof -
  have "unat b < 256" using unsigned_less [of b] by simp
  then show ?thesis by (simp add: parseInt16_hex_pair ToUint8_def)
qed

lemma regex_match_groups_hex_pair:
  "n < 256 \<Longrightarrow> regex_match_groups (hex_pair n @ s) = hex_pair n # regex_match_groups s"
  by (simp add: hex_pair_def hexchar_not_line_terminator)

lemma decode_groups_encodeHex:
  "map (\<lambda>byte. ToUint8 (parseInt16 byte)) (regex_match_groups (encodeHex bs)) = bs"
proof (induction bs)
  case Nil
  then show ?case by (simp add: encodeHex_concat)
next
  case (Cons b bs)
  have "unat b < 256" using unsigned_less [of b] by simp
  then show ?case
    using Cons.IH
    by (simp add: encodeHex_concat regex_match_groups_hex_pair ToUint8_parseInt16_hex_pair)
qed

lemma length_regex_match_groups:
  "\<forall>c\<in>set s. \<not> is_line_terminator c \<Longrightarrow>
   length (regex_match_groups s) = (length s + 1) div 2"
  by (induction s rule: regex_match_groups.induct) simp_all

lemma decodeHex_no_line_terminator:
  assumes "\<forall>c\<in>set s. \<not> is_line_terminator c"
  shows "decodeHex s = Inr (map (\<lambda>byte. ToUint8 (parseInt16 byte)) (regex_match_groups s))"
proof (cases s)
  case Nil
  then show ?thesis by (simp add: decodeHex_def)
next
  case (Cons c cs)
  then have "length (regex_match_groups s) \<noteq> 0"
    using length_regex_match_groups [OF assms] by simp
  then show ?thesis
    using Cons by (auto simp: decodeHex_def split: list.splits)
qed

lemmas decode_eval = decodeHex_def is_line_terminator_def code_unit_def ToUint8_def parseInt16_def
  is_white_space_def is_radix_digit_def radix_digit_def digit_value_def

section \<open>The salt of the key derivation\<close>

lemma set_u8_first:
  "salt \<noteq> [] \<Longrightarrow> set_u8 salt [b] 0 = Inr (b # tl salt)"
  by (cases salt) (simp_all add: set_u8_def)

lemma xMakeSalt_loop_result:
  "salt \<noteq> [] \<Longrightarrow>
   xMakeSalt_loop i n salt = Inr (if i < n then 0xFF # tl salt else salt)"
proof (induction i n salt rule: xMakeSalt_loop.induct)
  case (1 i n salt)
  show ?case
  proof (cases "i < n")
    case True
    have step: "xMakeSalt_loop (i + 1) n (0xFF # tl salt)
        = Inr (if i + 1 < n then 0xFF # tl (0xFF # tl salt) else 0xFF # tl salt)"
      using "1.IH" [OF True set_u8_first [OF "1.prems"]] by simp
    show ?thesis
      using True step
      by (subst xMakeSalt_loop.simps) (simp add: set_u8_first [OF "1.prems"])
  next
    case False
    then show ?thesis
      by (subst xMakeSalt_loop.simps) simp
  qed
qed

lemma keyLength_pos: "0 < keyLength c"
  by (simp add: keyLength_def)

lemma xMakeSalt_eq: "xMakeSalt c = Inr (0xFF # replicate (keyLength c - 1) 0)"
proof -
  have ne: "replicate (keyLength c) (0::byte) \<noteq> []"
    using keyLength_pos [of c] by simp
  have tl: "tl (replicate (keyLength c) (0::byte)) = replicate (keyLength c - 1) 0"
    by (cases "keyLength c") simp_all
  show ?thesis
    using xMakeSalt_loop_result [OF ne, of 0 "keyLength c"] keyLength_pos [of c]
    by (simp add: xMakeSalt_def Let_def tl)
qed

text \<open>
  C1. For both curves the salt that \<^verbatim>\<open>xMakeSalt\<close> builds has \<open>keyLength\<close> bytes
  (32 for X25519, 57 for X448), its byte 0 is \<open>0xFF\<close> and every other byte is
  \<open>0x00\<close>: the loop sets the first byte only, the others keep the zero they were
  allocated with. \<^verbatim>\<open>xKDF\<close> hands exactly this salt, for the curve of
  \<^verbatim>\<open>xConstants\<close>, to HKDF.
\<close>

theorem xMakeSalt_first_byte_only:
  "keyLength X25519 = 32 \<and> keyLength X448 = 57 \<and>
   (\<exists>salt. xMakeSalt c = Inr salt \<and>
      length salt = keyLength c \<and>
      salt ! 0 = 0xFF \<and>
      (\<forall>i. 0 < i \<and> i < length salt \<longrightarrow> salt ! i = 0x00) \<and>
      salt = 0xFF # replicate (keyLength c - 1) 0x00) \<and>
   xKDF hkdf IKM = Inr (hkdf IKM 32 (0xFF # replicate 31 0x00) ''xhat'' SHA512)"
proof -
  have len: "length (0xFF # replicate (keyLength c - 1) (0::byte)) = keyLength c"
    using keyLength_pos [of c] by simp
  have rest: "\<forall>i. 0 < i \<and> i < length (0xFF # replicate (keyLength c - 1) (0::byte))
      \<longrightarrow> (0xFF # replicate (keyLength c - 1) (0::byte)) ! i = 0"
    by (auto simp: nth_Cons split: nat.splits)
  have kdf: "xKDF hkdf IKM = Inr (hkdf IKM 32 (0xFF # replicate 31 0x00) ''xhat'' SHA512)"
    by (simp add: xKDF_def xMakeSalt_eq xConstants_def keyLength_def)
  show ?thesis
    using len rest kdf by (simp add: xMakeSalt_eq keyLength_def)
qed

theorem xMakeSalt_first_byte_only_witness:
  "\<exists>salt. xMakeSalt X448 = Inr salt \<and> length salt = 57 \<and> salt ! 0 = 0xFF \<and>
     salt ! 1 = 0x00 \<and> salt ! 56 = 0x00"
  using xMakeSalt_first_byte_only [of X448] by (auto simp: keyLength_def)

section \<open>The encoding of a public key\<close>

lemma trim_id:
  assumes "s \<noteq> []" "\<not> is_white_space (hd s)" "\<not> is_white_space (last s)"
  shows "trim s = s"
proof -
  have a: "dropWhile is_white_space s = s"
    using assms(2) by (simp add: dropWhile_eq_self_iff)
  have "hd (rev s) = last s" using assms(1) by (simp add: hd_rev)
  then have b: "dropWhile is_white_space (rev s) = rev s"
    using assms(3) by (simp add: dropWhile_eq_self_iff)
  show ?thesis by (simp add: trim_def a b)
qed

lemma digits_value_hex_pair:
  assumes "n < 256"
  shows "digits_value 16 acc (hex_pair n @ s) = digits_value 16 (256 * acc + n) s"
proof -
  have "n div 16 < 16" "n mod 16 < 16" using assms by simp_all
  then show ?thesis
    by (simp add: hex_pair_def radix_digit_hexchar add.assoc)
qed

lemma digits_value_encodeHex:
  "digits_value 16 acc (encodeHex bs) = Some (foldl (\<lambda>a b. 256 * a + unat b) acc bs)"
proof (induction bs arbitrary: acc)
  case Nil
  then show ?case by (simp add: encodeHex_concat)
next
  case (Cons b bs)
  have "unat b < 256" using unsigned_less [of b] by simp
  then show ?case
    using Cons.IH [of "256 * acc + unat b"]
    by (simp add: encodeHex_concat digits_value_hex_pair)
qed

lemma alphabet_not_white_space:
  "c \<in> set ''0123456789abcdef'' \<Longrightarrow> \<not> is_white_space c"
  by (auto simp: is_white_space_def code_unit_def)

lemma BigInt_of_hex:
  assumes "bs \<noteq> []"
  shows "BigInt_of_string (''0x'' @ encodeHex bs) = Inr (int (be_nat bs))"
proof -
  define h where "h = encodeHex bs"
  have hne: "h \<noteq> []"
    using assms length_encodeHex [of bs] by (auto simp: h_def)
  then have "last h \<in> set h" by simp
  then have "last h \<in> set ''0123456789abcdef''"
    using set_encodeHex [of bs] unfolding h_def by blast
  then have lst: "\<not> is_white_space (last (''0x'' @ h))"
    using hne alphabet_not_white_space by simp
  have fst: "\<not> is_white_space (hd (''0x'' @ h))"
    by (simp add: is_white_space_def code_unit_def)
  have "trim (''0x'' @ h) = ''0x'' @ h"
    by (rule trim_id [OF _ fst lst]) simp
  then have t: "trim (CHR ''0'' # CHR ''x'' # h) = CHR ''0'' # CHR ''x'' # h"
    by simp
  have v: "digits_value 16 0 h = Some (be_nat bs)"
    unfolding h_def be_nat_def by (rule digits_value_encodeHex)
  show ?thesis
    unfolding h_def [symmetric]
    by (simp add: BigInt_of_string_def Let_def t nondecimal_literal_def hne v)
qed

lemma isEven_nat: "isEven (int m) = Inr (even m)"
proof -
  have "(int m mod 2 = 0) = even m" by presburger
  then show ?thesis
    by (cases "m = 0") (auto simp: isEven_def bigint_rem_def)
qed

lemma foldl_push: "foldl (\<lambda>bs byte. bs @ [f byte]) init xs = init @ map f xs"
  by (induction xs arbitrary: init) simp_all

lemma Uint8Array_from_uint: "Uint8Array_from (map uint bs) = bs"
  by (simp add: Uint8Array_from_def map_idI)

lemma xEncode_XUtils_eq:
  assumes "length publicKey = 32"
  shows "xEncode_XUtils curveType publicKey =
    Inr ((case curveType of X25519 \<Rightarrow> 0 | X448 \<Rightarrow> 1)
      # (if even (be_nat publicKey) then 0 else 1) # publicKey)"
proof -
  have ne: "publicKey \<noteq> []" using assms by auto
  have u: "map word_of_int (map uint publicKey) = publicKey"
    using Uint8Array_from_uint [of publicKey] by (simp add: Uint8Array_from_def)
  show ?thesis
    using assms u
    by (cases curveType)
      (simp_all add: xEncode_XUtils_def Let_def BigInt_of_hex [OF ne, simplified] isEven_nat
        foldl_push Uint8Array_from_def)
qed

lemma xEncode_XUtils_layout:
  assumes "length publicKey = 32"
  shows "(\<exists>out. xEncode_XUtils X25519 publicKey = Inr out \<and> length out = 34 \<and> out ! 0 = 0 \<and>
            out ! 1 = (if even (be_nat publicKey) then 0 else 1) \<and>
            (\<forall>i. 2 \<le> i \<and> i \<le> 33 \<longrightarrow> out ! i = publicKey ! (i - 2)) \<and>
            drop 2 out = publicKey) \<and>
         (\<exists>out. xEncode_XUtils X448 publicKey = Inr out \<and> length out = 34 \<and> out ! 0 = 1)"
proof -
  have nth: "\<forall>i. 2 \<le> i \<and> i \<le> 33 \<longrightarrow> (a # b # publicKey) ! i = publicKey ! (i - 2)"
    for a b :: byte
  proof (intro allI impI)
    fix i :: nat assume "2 \<le> i \<and> i \<le> 33"
    then obtain j where "i = Suc (Suc j)"
      by (cases i; cases "i - 1") auto
    then show "(a # b # publicKey) ! i = publicKey ! (i - 2)" by simp
  qed
  show ?thesis
    using assms nth by (simp add: xEncode_XUtils_eq)
qed

lemma be_nat_zeros: "foldl (\<lambda>acc b. 256 * acc + unat (b::byte)) 0 (replicate k 0) = 0"
  by (induction k) simp_all

lemma xEncode_ReferenceError:
  "length publicKey = 32 \<Longrightarrow> xEncode curveType publicKey = Inl ReferenceError"
  by (simp add: xEncode_def undeclared_encodeHex_def)

text \<open>
  C2. The claim gives the encoding of a key of 32 bytes: 34 bytes, byte 0 the tag of the
  curve (0 for X25519, 1 for X448), byte 1 the parity of the big-endian unsigned integer
  of the key, bytes 2 to 33 the key unchanged. \<^verbatim>\<open>xEncode\<close> of \<^verbatim>\<open>src/index.ts\<close>
  returns no encoding for such a key: its call of \<^verbatim>\<open>encodeHex\<close> names nothing the
  file declares, so it throws a \<^verbatim>\<open>ReferenceError\<close>, for both curves. The copy of
  \<^verbatim>\<open>xEncode\<close> beside the class \<^verbatim>\<open>XUtils\<close>, which calls
  \<^verbatim>\<open>XUtils.encodeHex\<close>, returns the encoding of the claim.
\<close>

theorem xEncode_undeclared_encodeHex:
  assumes "length publicKey = 32"
  shows "xEncode X25519 publicKey = Inl ReferenceError \<and>
         xEncode X448 publicKey = Inl ReferenceError \<and>
         (\<exists>out. xEncode_XUtils X25519 publicKey = Inr out \<and> length out = 34 \<and> out ! 0 = 0 \<and>
            out ! 1 = (if even (be_nat publicKey) then 0 else 1) \<and>
            drop 2 out = publicKey) \<and>
         (\<exists>out. xEncode_XUtils X448 publicKey = Inr out \<and> length out = 34 \<and> out ! 0 = 1)"
proof -
  have "\<exists>out. xEncode_XUtils X25519 publicKey = Inr out \<and> length out = 34 \<and> out ! 0 = 0 \<and>
      out ! 1 = (if even (be_nat publicKey) then 0 else 1) \<and> drop 2 out = publicKey"
    using assms by (simp add: xEncode_XUtils_eq)
  moreover have "\<exists>out. xEncode_XUtils X448 publicKey = Inr out \<and> length out = 34 \<and> out ! 0 = 1"
    using assms by (simp add: xEncode_XUtils_eq)
  ultimately show ?thesis
    using xEncode_ReferenceError [OF assms] by simp
qed

theorem xEncode_undeclared_encodeHex_witness:
  "xEncode X25519 (replicate 32 0) = Inl ReferenceError \<and>
   xEncode X448 (replicate 32 0) = Inl ReferenceError \<and>
   xEncode_XUtils X25519 (replicate 32 0) = Inr (0 # 0 # replicate 32 0)"
proof -
  define k :: bytes where "k = replicate 32 0"
  have l: "length k = 32" by (simp add: k_def)
  have v: "be_nat k = 0" by (simp add: k_def be_nat_def be_nat_zeros)
  note main = xEncode_undeclared_encodeHex [OF l]
  from main obtain out where o: "xEncode_XUtils X25519 k = Inr out" "length out = 34"
      "out ! 0 = 0" "out ! 1 = (if even (be_nat k) then 0 else 1)" "drop 2 out = k"
    by (elim conjE exE)
  have "out = take 2 out @ drop 2 out" by simp
  moreover have "take 2 out = [out ! 0, out ! 1]"
    using o(2) by (simp add: take_Suc_conv_app_nth numeral_2_eq_2)
  ultimately have "out = 0 # 0 # k"
    using o(3,4,5) v by simp
  then have "xEncode_XUtils X25519 k = Inr (0 # 0 # k)" using o(1) by simp
  moreover have "xEncode X25519 k = Inl ReferenceError" "xEncode X448 k = Inl ReferenceError"
    using main by simp_all
  ultimately show ?thesis unfolding k_def by simp
qed

text \<open>
  C3. For a key whose length is not 32, and for both curves, \<^verbatim>\<open>xEncode\<close> throws the
  invalid-key-length error and returns no encoding.
\<close>

theorem xEncode_bad_length:
  "length publicKey \<noteq> 32 \<Longrightarrow>
   xEncode X25519 publicKey = Inl (InvalidKeyLength (length publicKey)) \<and>
   xEncode X448 publicKey = Inl (InvalidKeyLength (length publicKey))"
  by (simp add: xEncode_def)

theorem xEncode_bad_length_witness:
  "xEncode X25519 [1, 2, 3] = Inl (InvalidKeyLength 3) \<and>
   xEncode X448 (replicate 57 0) = Inl (InvalidKeyLength 57)"
  using xEncode_bad_length [of "[1, 2, 3]"] xEncode_bad_length [of "replicate 57 0"] by simp

section \<open>Hex encoding and decoding\<close>

text \<open>
  C4. For every byte sequence \<open>b\<close>, the empty one included,
  \<^verbatim>\<open>decodeHex(encodeHex(b))\<close> is \<open>b\<close>; \<^verbatim>\<open>encodeHex\<close> writes lowercase hex
  digits, two for each byte, so its result is twice as long as its argument.
\<close>

theorem decodeHex_encodeHex:
  "decodeHex (encodeHex b) = Inr b \<and>
   length (encodeHex b) = 2 * length b \<and>
   set (encodeHex b) \<subseteq> set ''0123456789abcdef'' \<and>
   decodeHex (encodeHex []) = Inr []"
proof -
  have "decodeHex (encodeHex b) = Inr b"
  proof (cases b)
    case Nil
    then show ?thesis by (simp add: decodeHex_def encodeHex_def)
  next
    case (Cons x xs)
    have "map (\<lambda>byte. ToUint8 (parseInt16 byte)) (regex_match_groups (encodeHex b)) = b"
      by (rule decode_groups_encodeHex)
    then show ?thesis
      using Cons by (auto simp: decodeHex_def split: list.splits)
  qed
  moreover have "decodeHex (encodeHex []) = Inr []"
    by (simp add: decodeHex_def encodeHex_def)
  ultimately show ?thesis
    using length_encodeHex set_encodeHex by blast
qed

theorem decodeHex_encodeHex_witness:
  "decodeHex (encodeHex [0x00, 0xFF]) = Inr [0x00, 0xFF] \<and> length (encodeHex [0x00, 0xFF]) = 4 \<and>
   decodeHex (encodeHex []) = Inr []"
  using decodeHex_encodeHex [of "[0x00, 0xFF]"] by simp

text \<open>
  C5, as amended. \<^verbatim>\<open>decodeHex\<close> validates nothing: for every string without a line
  terminator, also one of odd length or with characters that are no hex digits, it
  returns a byte array, one byte for each group of up to two characters (half the
  length, rounded up); the byte is \<^verbatim>\<open>parseInt(group, 16)\<close> modulo 256, and 0 when
  the group starts with no hex number. The empty string gives the empty byte sequence.
\<close>

theorem decodeHex_no_validation:
  "((\<forall>c\<in>set s. \<not> is_line_terminator c) \<longrightarrow>
      (\<exists>bs. decodeHex s = Inr bs \<and> length bs = (length s + 1) div 2 \<and>
         bs = map (\<lambda>byte. ToUint8 (parseInt16 byte)) (regex_match_groups s))) \<and>
   decodeHex [] = Inr []"
  using decodeHex_no_line_terminator [of s] length_regex_match_groups [of s]
  by (simp add: decodeHex_def)

theorem decodeHex_no_validation_witness:
  "\<exists>bs. decodeHex ''abc'' = Inr bs \<and> length bs = 2"
proof -
  have "\<forall>c\<in>set ''abc''. \<not> is_line_terminator c"
    by (simp add: is_line_terminator_def code_unit_def)
  then show ?thesis using decodeHex_no_validation [of "''abc''"] by simp
qed

text \<open>
  The claim as the specification states it (a string of odd length, or with a character
  that is no hex digit, makes \<^verbatim>\<open>decodeHex\<close> fail) is false: these four strings are
  decoded.
\<close>

theorem decodeHex_counterexample:
  "decodeHex ''abc'' = Inr [0xAB, 0x0C] \<and> decodeHex ''zz'' = Inr [0x00] \<and>
   decodeHex ''0g'' = Inr [0x00] \<and> decodeHex ''f'' = Inr [0x0F]"
  by (simp add: decode_eval)

section \<open>Framing a message\<close>

lemma foldl_total: "foldl (\<lambda>acc v. acc + length (f v)) k xs = k + length (concat (map f xs))"
  by (induction xs arbitrary: k) simp_all

lemma set_u8_fill:
  assumes "length pre = len"
  shows "set_u8 (pre @ replicate (length src + k) 0) src len = Inr ((pre @ src) @ replicate k 0)"
  using assms by (simp add: set_u8_def replicate_add)

lemma xConcat_loop_result:
  assumes "result \<notin> set arrays"
    and "mem h result = pre @ replicate (length (concat (map (mem h) arrays))) 0"
    and "length pre = len"
  shows "\<exists>h'. xConcat_loop arrays result len h = Inr h' \<and>
           mem h' result = pre @ concat (map (mem h) arrays) \<and>
           (\<forall>r. r \<noteq> result \<longrightarrow> mem h' r = mem h r) \<and> next_ref h' = next_ref h"
  using assms
proof (induction arrays arbitrary: h pre len)
  case Nil
  then show ?case by simp
next
  case (Cons a as)
  define w where "w = (pre @ mem h a) @ replicate (length (concat (map (mem h) as))) 0"
  define h1 where "h1 = h\<lparr>mem := (mem h)(result := w)\<rparr>"
  have ne: "a \<noteq> result" and notin: "result \<notin> set as"
    using Cons.prems(1) by auto
  have same: "map (mem h1) as = map (mem h) as"
    using notin by (auto simp: h1_def)
  have wr: "set_u8 (mem h result) (mem h a) len = Inr w"
    using set_u8_fill [OF Cons.prems(3), of "mem h a" "length (concat (map (mem h) as))"]
    by (simp add: Cons.prems(2) w_def)
  have m1: "mem h1 result = (pre @ mem h a) @ replicate (length (concat (map (mem h1) as))) 0"
    unfolding same by (simp add: h1_def w_def)
  have l1: "length (pre @ mem h a) = len + length (mem h a)"
    using Cons.prems(3) by simp
  obtain h' where h': "xConcat_loop as result (len + length (mem h a)) h1 = Inr h'"
      "mem h' result = (pre @ mem h a) @ concat (map (mem h1) as)"
      "\<forall>r. r \<noteq> result \<longrightarrow> mem h' r = mem h1 r" "next_ref h' = next_ref h1"
    using Cons.IH [OF notin m1 l1] by blast
  have "xConcat_loop (a # as) result len h = Inr h'"
    using wr h'(1) by (simp add: h1_def)
  moreover have "mem h' result = pre @ concat (map (mem h) (a # as))"
    using h'(2) by (simp add: same)
  moreover have "\<forall>r. r \<noteq> result \<longrightarrow> mem h' r = mem h r"
    using h'(3) by (simp add: h1_def)
  moreover have "next_ref h' = next_ref h"
    using h'(4) by (simp add: h1_def)
  ultimately show ?case by blast
qed

lemma xConcat_result:
  assumes "\<forall>r\<in>set arrays. r < next_ref h"
  shows "\<exists>h'. xConcat arrays h = Inr (next_ref h, h') \<and>
           mem h' (next_ref h) = concat (map (mem h) arrays) \<and>
           (\<forall>r. r < next_ref h \<longrightarrow> mem h' r = mem h r) \<and>
           next_ref h' = Suc (next_ref h)"
proof (cases arrays)
  case Nil
  then show ?thesis by (simp add: xConcat_def new_Uint8Array_def)
next
  case (Cons a as)
  define n where "n = length (concat (map (mem h) arrays))"
  define h1 where "h1 = h\<lparr>mem := (mem h)(next_ref h := replicate n 0), next_ref := Suc (next_ref h)\<rparr>"
  have fresh: "next_ref h \<notin> set arrays" using assms by auto
  have same: "map (mem h1) arrays = map (mem h) arrays"
    using fresh by (auto simp: h1_def)
  have m1: "mem h1 (next_ref h) = [] @ replicate (length (concat (map (mem h1) arrays))) 0"
    unfolding same by (simp add: h1_def n_def)
  obtain h' where h': "xConcat_loop arrays (next_ref h) 0 h1 = Inr h'"
      "mem h' (next_ref h) = [] @ concat (map (mem h1) arrays)"
      "\<forall>r. r \<noteq> next_ref h \<longrightarrow> mem h' r = mem h1 r" "next_ref h' = next_ref h1"
    using xConcat_loop_result [OF fresh m1, of 0] by auto
  have tot: "foldl (\<lambda>acc v. acc + length (mem h v)) 0 arrays = n"
    by (simp add: foldl_total n_def)
  have "xConcat arrays h = Inr (next_ref h, h')"
    using Cons h'(1) unfolding xConcat_def tot Let_def new_Uint8Array_def h1_def [symmetric]
    by simp
  moreover have "mem h' (next_ref h) = concat (map (mem h) arrays)"
    using h'(2) by (simp add: same)
  moreover have "\<forall>r. r < next_ref h \<longrightarrow> mem h' r = mem h r"
    using h'(3) by (simp add: h1_def)
  moreover have "next_ref h' = Suc (next_ref h)"
    using h'(4) by (simp add: h1_def)
  ultimately show ?thesis by blast
qed

lemma sum_list_lengths: "length (concat (map f xs)) = sum_list (map (\<lambda>r. length (f r)) xs)"
  by (induction xs) simp_all

lemma xConcat_bytes_eq: "xConcat_bytes args = Inr (concat args)"
proof -
  define h :: store where
    "h = \<lparr>mem = (\<lambda>r. if r < length args then args ! r else []), next_ref = length args\<rparr>"
  have nx: "next_ref h = length args" by (simp add: h_def)
  have a: "\<forall>r\<in>set [0..<length args]. r < next_ref h" by (simp add: nx)
  from xConcat_result [OF a]
  obtain h' where h': "xConcat [0..<length args] h = Inr (next_ref h, h')"
      "mem h' (next_ref h) = concat (map (mem h) [0..<length args])"
    by (elim exE conjE)
  have "map (mem h) [0..<length args] = args"
    by (rule nth_equalityI) (simp_all add: h_def)
  then have c: "mem h' (next_ref h) = concat args" using h'(2) by simp
  have "xConcat_bytes args =
    (case xConcat [0..<length args] h of Inl e \<Rightarrow> Inl e | Inr (result, h) \<Rightarrow> Inr (mem h result))"
    by (simp only: xConcat_bytes_def h_def)
  then show ?thesis
    by (simp add: h'(1) c)
qed

lemma packMessage_eq:
  "encode body = Inr packed \<Longrightarrow>
   packMessage encode body header =
     Inr ((case header of Some given \<Rightarrow> given | None \<Rightarrow> replicate 32 0) @ packed)"
  by (cases header) (simp_all add: packMessage_def xConcat_bytes_eq emptyHeader_def HEADER_SIZE_def)

text \<open>
  C6. For a header of exactly 32 bytes and a body that the codec round-trips,
  \<^verbatim>\<open>unpackMessage(packMessage(body, header))\<close> returns the header and the body. With
  the header omitted, \<^verbatim>\<open>packMessage\<close> puts 32 zero bytes in front, and
  \<^verbatim>\<open>unpackMessage\<close> returns the all-zero header.
\<close>

theorem pack_unpack_roundtrip:
  assumes "length header = 32" and "encode body = Inr packed" and "decode packed = Inr body"
  shows "(\<exists>p. packMessage encode body (Some header) = Inr p \<and>
            unpackMessage decode p = Inr (header, body)) \<and>
         (\<exists>p. packMessage encode body None = Inr p \<and>
            take 32 p = replicate 32 0 \<and>
            unpackMessage decode p = Inr (replicate 32 0, body))"
  using assms by (simp add: packMessage_eq unpackMessage_def HEADER_SIZE_def)

theorem pack_unpack_roundtrip_witness:
  "(\<exists>p. packMessage byte_encode 5 (Some (replicate 32 7)) = Inr p \<and>
      unpackMessage byte_decode p = Inr (replicate 32 7, 5)) \<and>
   (\<exists>p. packMessage byte_encode 5 None = Inr p \<and>
      take 32 p = replicate 32 0 \<and>
      unpackMessage byte_decode p = Inr (replicate 32 0, 5))"
proof -
  have l: "length (replicate 32 (7 :: byte)) = 32" by simp
  have e: "byte_encode 5 = Inr [5]" by (simp add: byte_encode_def)
  have d: "byte_decode [5] = Inr 5" by (simp add: byte_decode_def)
  show ?thesis
    by (rule pack_unpack_roundtrip
        [where header = "replicate 32 7" and encode = byte_encode and body = 5
           and packed = "[5]" and decode = byte_decode, OF l e d])
qed





section \<open>Comparing byte sequences\<close>

lemma bytesEqual_loop_result:
  "length dv1 = n \<Longrightarrow> length dv2 = n \<Longrightarrow> i \<le> n \<Longrightarrow>
   bytesEqual_loop i n dv1 dv2 = Some (drop i dv1 = drop i dv2)"
proof (induction "n - i" arbitrary: i)
  case 0
  then show ?case by (subst bytesEqual_loop.simps) simp
next
  case (Suc k)
  then have lt: "i < n" by simp
  have d1: "drop i dv1 = dv1 ! i # drop (Suc i) dv1"
    using lt Suc.prems(1) by (simp add: Cons_nth_drop_Suc)
  have d2: "drop i dv2 = dv2 ! i # drop (Suc i) dv2"
    using lt Suc.prems(2) by (simp add: Cons_nth_drop_Suc)
  have IH: "bytesEqual_loop (i + 1) n dv1 dv2 = Some (drop (i + 1) dv1 = drop (i + 1) dv2)"
    using Suc.hyps(1) [of "i + 1"] Suc.hyps(2) Suc.prems lt by simp
  show ?case
    using lt IH Suc.prems(1,2)
    by (subst bytesEqual_loop.simps) (simp add: typed_get_def d1 d2)
qed

lemma Int8Array_view_inj: "Int8Array_view a = Int8Array_view b \<longleftrightarrow> a = b"
proof -
  have "inj (sint :: byte \<Rightarrow> int)"
    by (rule injI) (simp add: signed_word_eqI)
  then show ?thesis
    by (simp add: Int8Array_view_def)
qed

lemma bytesEqual_eq: "bytesEqual a b = Some (a = b)"
proof (cases "length a = length b")
  case True
  then show ?thesis
    using bytesEqual_loop_result [of "Int8Array_view a" "length a" "Int8Array_view b" 0]
    by (simp add: bytesEqual_def Int8Array_view_inj) (simp add: Int8Array_view_def)
next
  case False
  then show ?thesis by (auto simp: bytesEqual_def)
qed

text \<open>
  C8. \<^verbatim>\<open>bytesEqual(a, b)\<close> always returns: false when the lengths differ; for equal
  lengths, false when some position differs and true when all positions agree, also
  when both are empty. It never throws and its loop always ends.
\<close>

theorem bytesEqual_spec:
  "(length a \<noteq> length b \<longrightarrow> bytesEqual a b = Some False) \<and>
   (length a = length b \<longrightarrow>
      ((\<exists>i<length a. a ! i \<noteq> b ! i) \<longrightarrow> bytesEqual a b = Some False) \<and>
      ((\<forall>i<length a. a ! i = b ! i) \<longrightarrow> bytesEqual a b = Some True)) \<and>
   bytesEqual [] [] = Some True \<and>
   (\<exists>r. bytesEqual a b = Some r)"
  by (auto simp: bytesEqual_eq list_eq_iff_nth_eq)

theorem bytesEqual_spec_witness:
  "bytesEqual [1, 2, 3] [1, 2, 3] = Some True \<and>
   bytesEqual [1, 2] [1, 2, 3] = Some False \<and>
   bytesEqual [1, 2, 3] [1, 0xFF, 3] = Some False"
proof -
  have a: "\<forall>i<length [1, 2, 3 :: byte]. [1, 2, 3 :: byte] ! i = [1, 2, 3] ! i" by simp
  have c: "\<exists>i<length [1, 2, 3 :: byte]. [1, 2, 3 :: byte] ! i \<noteq> [1, 0xFF, 3] ! i"
    by (rule exI [of _ 1]) simp
  show ?thesis
    using bytesEqual_spec [of "[1, 2, 3]" "[1, 2, 3]"] a
      bytesEqual_spec [of "[1, 2]" "[1, 2, 3]"]
      bytesEqual_spec [of "[1, 2, 3]" "[1, 0xFF, 3]"] c
    by simp
qed

section \<open>Numbers as six bytes\<close>

lemma numberToUint8Arr_loop_eq:
  "numberToUint8Arr_loop str = replicate (12 - length str) CHR ''0'' @ str"
proof (induction str rule: numberToUint8Arr_loop.induct)
  case (1 str)
  show ?case
  proof (cases "length str < 12")
    case True
    then have "12 - length str = Suc (12 - length (''0'' @ str))" by simp
    then show ?thesis
      using "1.IH" [OF True] True
      by (subst numberToUint8Arr_loop.simps) (simp add: replicate_append_same)
  next
    case False
    then show ?thesis by (subst numberToUint8Arr_loop.simps) simp
  qed
qed

lemma hex_digits_chars: "c \<in> set (hex_digits n) \<Longrightarrow> \<exists>d<16. c = hexchar d"
proof (induction n rule: hex_digits.induct)
  case (1 n)
  show ?case
  proof (cases "n < 16")
    case True
    then show ?thesis using "1.prems" by (auto simp: hex_digits_small)
  next
    case False
    have "hex_digits n = hex_digits (n div 16) @ [hexchar (n mod 16)]"
      using False by (subst hex_digits.simps) simp
    then have "c \<in> set (hex_digits (n div 16)) \<or> c = hexchar (n mod 16)"
      using "1.prems" by auto
    then show ?thesis
    proof
      assume "c \<in> set (hex_digits (n div 16))"
      then show ?thesis using "1.IH" [OF False] by blast
    next
      assume "c = hexchar (n mod 16)"
      moreover have "n mod 16 < 16" by simp
      ultimately show ?thesis by blast
    qed
  qed
qed

lemma hex_digits_nonempty: "hex_digits n \<noteq> []"
  by (subst hex_digits.simps) simp

lemma digits_value_append:
  "digits_value R acc (xs @ ys) =
     (case digits_value R acc xs of None \<Rightarrow> None | Some v \<Rightarrow> digits_value R v ys)"
  by (induction xs arbitrary: acc) (simp_all split: option.splits)

lemma digits_value_hex_digits: "digits_value 16 0 (hex_digits n) = Some n"
proof (induction n rule: hex_digits.induct)
  case (1 n)
  show ?case
  proof (cases "n < 16")
    case True
    then show ?thesis by (simp add: hex_digits_small radix_digit_hexchar)
  next
    case False
    have eq: "hex_digits n = hex_digits (n div 16) @ [hexchar (n mod 16)]"
      using False by (subst hex_digits.simps) simp
    show ?thesis
      using "1.IH" [OF False]
      by (simp add: eq digits_value_append radix_digit_hexchar)
  qed
qed

lemma radix_digit_zero: "radix_digit 16 CHR ''0'' = Some 0"
  by (simp add: radix_digit_def digit_value_def code_unit_def)

lemma digits_value_zero_prefix:
  "digits_value 16 0 (replicate k CHR ''0'' @ s) = digits_value 16 0 s"
  by (induction k) (simp_all add: radix_digit_zero)

lemma length_hex_digits_le: "n < 16 ^ k \<Longrightarrow> 0 < k \<Longrightarrow> length (hex_digits n) \<le> k"
proof (induction k arbitrary: n)
  case 0
  then show ?case by simp
next
  case (Suc k)
  show ?case
  proof (cases "n < 16")
    case True
    then show ?thesis by (simp add: hex_digits_small)
  next
    case False
    have eq: "hex_digits n = hex_digits (n div 16) @ [hexchar (n mod 16)]"
      using False by (subst hex_digits.simps) simp
    have small: "n div 16 < 16 ^ k"
      using Suc.prems(1) by (simp add: less_mult_imp_div_less mult.commute)
    have "0 < k"
    proof (rule ccontr)
      assume "\<not> 0 < k"
      then have "k = 0" by simp
      then show False using Suc.prems(1) False by simp
    qed
    then show ?thesis using Suc.IH [OF small] by (simp add: eq)
  qed
qed

lemma length_hex_digits_gt: "16 ^ k \<le> n \<Longrightarrow> k < length (hex_digits n)"
proof (induction k arbitrary: n)
  case 0
  then show ?case using hex_digits_nonempty [of n] by simp
next
  case (Suc k)
  have big: "\<not> n < 16"
  proof
    assume "n < 16"
    moreover have "(16::nat) \<le> 16 ^ Suc k" by simp
    ultimately show False using Suc.prems by linarith
  qed
  have eq: "hex_digits n = hex_digits (n div 16) @ [hexchar (n mod 16)]"
    using big by (subst hex_digits.simps) simp
  have "16 ^ k \<le> n div 16"
    using Suc.prems by (simp add: less_eq_div_iff_mult_less_eq mult.commute)
  then show ?case using Suc.IH by (simp add: eq)
qed

lemma hex_pair_of_digits:
  "a < 16 \<Longrightarrow> b < 16 \<Longrightarrow> [hexchar a, hexchar b] = hex_pair (16 * a + b)"
  by (simp add: hex_pair_def)

lemma decode_groups_value:
  "even (length s) \<Longrightarrow> \<forall>c\<in>set s. \<exists>d<16. c = hexchar d \<Longrightarrow>
   digits_value 16 acc s =
     Some (foldl (\<lambda>a b. 256 * a + unat b) acc
       (map (\<lambda>byte. ToUint8 (parseInt16 byte)) (regex_match_groups s)))"
proof (induction s arbitrary: acc rule: induct_list012)
  case 1
  then show ?case by simp
next
  case (2 x)
  then show ?case by simp
next
  case (3 x y zs)
  obtain a where a: "a < 16" "x = hexchar a" using "3.prems"(2) by auto
  obtain b where b: "b < 16" "y = hexchar b" using "3.prems"(2) by auto
  define n where "n = 16 * a + b"
  have n: "n < 256" using a b by (simp add: n_def)
  have xy: "x # y # zs = hex_pair n @ zs"
    using hex_pair_of_digits [OF a(1) b(1)] by (simp add: a b n_def)
  have byte: "unat (ToUint8 (parseInt16 (hex_pair n))) = n"
    using n by (simp add: parseInt16_hex_pair ToUint8_def unat_of_nat)
  have ev: "even (length zs)" using "3.prems"(1) by simp
  have ch: "\<forall>c\<in>set zs. \<exists>d<16. c = hexchar d" using "3.prems"(2) by simp
  have dv: "digits_value 16 acc (x # y # zs) = digits_value 16 (256 * acc + n) zs"
    by (simp add: a b radix_digit_hexchar n_def add.assoc)
  have grp: "regex_match_groups (x # y # zs) = hex_pair n # regex_match_groups zs"
    unfolding xy by (rule regex_match_groups_hex_pair [OF n])
  show ?case
    unfolding dv grp by (simp add: "3.IH"(1) [OF ev ch] byte)
qed

lemma lowhex_no_line_terminator:
  assumes "\<forall>c\<in>set s. \<exists>d<16. c = hexchar d"
  shows "\<forall>c\<in>set s. \<not> is_line_terminator c"
proof
  fix c assume "c \<in> set s"
  then obtain d where "d < 16" "c = hexchar d"
    using assms by auto
  then show "\<not> is_line_terminator c"
    by (simp add: hexchar_not_line_terminator)
qed

lemma numberToUint8Arr_in_range:
  assumes "0 \<le> n" "n < 2 ^ 48"
  shows "\<exists>bs. numberToUint8Arr n = Inr bs \<and> length bs = 6 \<and> int (be_nat bs) = n"
proof -
  define h where "h = hex_digits (nat n)"
  define p where "p = replicate (12 - length h) CHR ''0'' @ h"
  define bs where "bs = map (\<lambda>byte. ToUint8 (parseInt16 byte)) (regex_match_groups p)"
  have "nat n < 2 ^ 48" using assms by (simp add: nat_less_iff)
  then have "nat n < 16 ^ 12" by simp
  then have hlen: "length h \<le> 12" unfolding h_def by (rule length_hex_digits_le) simp
  then have plen: "length p = 12" by (simp add: p_def)
  have zero: "CHR ''0'' = hexchar 0" by (simp add: hexchar_def)
  have hch: "\<forall>c\<in>set h. \<exists>d<16. c = hexchar d"
    unfolding h_def using hex_digits_chars by blast
  have pch: "\<forall>c\<in>set p. \<exists>d<16. c = hexchar d"
  proof
    fix c assume "c \<in> set p"
    then have "c = hexchar 0 \<or> c \<in> set h" by (auto simp: p_def zero)
    then show "\<exists>d<16. c = hexchar d"
    proof
      assume "c = hexchar 0"
      then show ?thesis by (intro exI [of _ 0]) simp
    next
      assume "c \<in> set h"
      then show ?thesis using hch by blast
    qed
  qed
  have str: "numberToUint8Arr_loop (Number_toString16 n) = p"
    using assms(1) by (simp add: numberToUint8Arr_loop_eq Number_toString16_def p_def h_def)
  have dec: "numberToUint8Arr n = Inr bs"
    unfolding numberToUint8Arr_def str bs_def
    by (rule decodeHex_no_line_terminator [OF lowhex_no_line_terminator [OF pch]])
  have len: "length bs = 6"
    using length_regex_match_groups [OF lowhex_no_line_terminator [OF pch]] plen
    by (simp add: bs_def)
  have "digits_value 16 0 p = Some (be_nat bs)"
    unfolding be_nat_def bs_def by (rule decode_groups_value) (simp_all add: plen pch)
  moreover have "digits_value 16 0 p = Some (nat n)"
    by (simp add: p_def digits_value_zero_prefix h_def digits_value_hex_digits)
  ultimately have "be_nat bs = nat n" by simp
  then have "int (be_nat bs) = n" using assms(1) by simp
  then show ?thesis using dec len by blast
qed

lemma Number_toString16_no_line_terminator:
  "\<forall>c\<in>set (Number_toString16 n). \<not> is_line_terminator c"
proof
  fix c assume c: "c \<in> set (Number_toString16 n)"
  have digits: "\<not> is_line_terminator c" if cm: "c \<in> set (hex_digits m)" for m
  proof -
    obtain d where "d < 16" "c = hexchar d" using hex_digits_chars [OF cm] by blast
    then show ?thesis by (simp add: hexchar_not_line_terminator)
  qed
  have minus: "\<not> is_line_terminator CHR ''-''"
    by (simp add: is_line_terminator_def code_unit_def)
  show "\<not> is_line_terminator c"
    using c digits minus by (auto simp: Number_toString16_def split: if_splits)
qed

lemma padded_no_line_terminator:
  "\<forall>c\<in>set (numberToUint8Arr_loop (Number_toString16 n)). \<not> is_line_terminator c"
proof -
  have zero: "\<not> is_line_terminator CHR ''0''"
    by (simp add: is_line_terminator_def code_unit_def)
  show ?thesis
    using Number_toString16_no_line_terminator [of n] zero
    by (auto simp: numberToUint8Arr_loop_eq)
qed

lemma numberToUint8Arr_total:
  "numberToUint8Arr n =
     Inr (map (\<lambda>byte. ToUint8 (parseInt16 byte))
       (regex_match_groups (numberToUint8Arr_loop (Number_toString16 n))))"
  unfolding numberToUint8Arr_def
  by (rule decodeHex_no_line_terminator [OF padded_no_line_terminator])

lemma numberToUint8Arr_too_big:
  assumes "2 ^ 48 \<le> n"
  shows "\<exists>bs. numberToUint8Arr n = Inr bs \<and> 6 < length bs"
proof -
  have "(16::nat) ^ 12 \<le> nat n" using assms by (simp add: le_nat_iff)
  then have "12 < length (hex_digits (nat n))" by (rule length_hex_digits_gt)
  moreover have "\<not> n < 0" using assms by (simp add: not_less order_trans [of 0 "2 ^ 48" n])
  ultimately have "12 < length (numberToUint8Arr_loop (Number_toString16 n))"
    by (simp add: numberToUint8Arr_loop_eq Number_toString16_def)
  then have "6 < length (regex_match_groups (numberToUint8Arr_loop (Number_toString16 n)))"
    using length_regex_match_groups [OF padded_no_line_terminator [of n]] by simp
  then show ?thesis by (simp add: numberToUint8Arr_total)
qed

lemma uint8ArrToNumber_six:
  "length bs = 6 \<Longrightarrow> uint8ArrToNumber bs = Inr (int (be_nat bs))"
  by (simp add: uint8ArrToNumber_def readUIntBE_def)

lemma uint8ArrToNumber_long:
  "6 < length bs \<Longrightarrow> uint8ArrToNumber bs = Inl RangeError"
  by (simp add: uint8ArrToNumber_def readUIntBE_def)

lemma numberToUint8Arr_minus_one: "numberToUint8Arr (- 1) = Inr [0, 0, 0, 0, 0, 0xFF]"
proof -
  have "numberToUint8Arr_loop (Number_toString16 (- 1)) = ''0000000000-1''"
    by (simp add: Number_toString16_def hex_digits_small hexchar_def numberToUint8Arr_loop_eq
        eval_nat_numeral)
  then show ?thesis
    by (simp add: numberToUint8Arr_def decode_eval)
qed

text \<open>
  C9, as amended. For every integer \<open>n\<close> with \<open>0 \<le> n < 2^48\<close>,
  \<^verbatim>\<open>numberToUint8Arr(n)\<close> is exactly 6 bytes that hold \<open>n\<close> in big-endian order, and
  \<^verbatim>\<open>uint8ArrToNumber\<close> gives \<open>n\<close> back. \<^verbatim>\<open>numberToUint8Arr\<close> checks no range and
  throws nothing: it returns a byte array for every integer, and for \<open>n \<ge> 2^48\<close> one
  of more than 6 bytes, which only \<^verbatim>\<open>uint8ArrToNumber\<close> then rejects (the
  \<^verbatim>\<open>RangeError\<close> of \<^verbatim>\<open>readUIntBE\<close> for more than 6 bytes).
\<close>

theorem numberToUint8Arr_no_range_check:
  "(0 \<le> n \<and> n < 2 ^ 48 \<longrightarrow>
      (\<exists>bs. numberToUint8Arr n = Inr bs \<and> length bs = 6 \<and> int (be_nat bs) = n \<and>
         uint8ArrToNumber bs = Inr n)) \<and>
   (\<exists>bs. numberToUint8Arr n = Inr bs) \<and>
   (2 ^ 48 \<le> n \<longrightarrow>
      (\<exists>bs. numberToUint8Arr n = Inr bs \<and> 6 < length bs \<and>
         uint8ArrToNumber bs = Inl RangeError))"
proof (intro conjI impI)
  assume "0 \<le> n \<and> n < 2 ^ 48"
  then obtain bs where bs: "numberToUint8Arr n = Inr bs" "length bs = 6" "int (be_nat bs) = n"
    using numberToUint8Arr_in_range [of n] by blast
  then have "uint8ArrToNumber bs = Inr n" by (simp add: uint8ArrToNumber_six)
  then show "\<exists>bs. numberToUint8Arr n = Inr bs \<and> length bs = 6 \<and> int (be_nat bs) = n \<and>
      uint8ArrToNumber bs = Inr n"
    using bs by blast
next
  show "\<exists>bs. numberToUint8Arr n = Inr bs" by (simp add: numberToUint8Arr_total)
next
  assume "2 ^ 48 \<le> n"
  then obtain bs where bs: "numberToUint8Arr n = Inr bs" "6 < length bs"
    using numberToUint8Arr_too_big [of n] by blast
  then have "uint8ArrToNumber bs = Inl RangeError" by (simp add: uint8ArrToNumber_long)
  then show "\<exists>bs. numberToUint8Arr n = Inr bs \<and> 6 < length bs \<and>
      uint8ArrToNumber bs = Inl RangeError"
    using bs by blast
qed

theorem numberToUint8Arr_no_range_check_witness:
  "(\<exists>bs. numberToUint8Arr 258 = Inr bs \<and> length bs = 6 \<and> int (be_nat bs) = 258 \<and>
      uint8ArrToNumber bs = Inr 258) \<and>
   (\<exists>bs. numberToUint8Arr (- 5) = Inr bs) \<and>
   (\<exists>bs. numberToUint8Arr (2 ^ 48) = Inr bs \<and> 6 < length bs \<and>
      uint8ArrToNumber bs = Inl RangeError)"
proof -
  have a: "(0::int) \<le> 258 \<and> (258::int) < 2 ^ 48" by simp
  have b: "(2::int) ^ 48 \<le> 2 ^ 48" by simp
  show ?thesis
    using numberToUint8Arr_no_range_check [of 258] a
      numberToUint8Arr_no_range_check [of "- 5"]
      numberToUint8Arr_no_range_check [of "2 ^ 48"] b
    by blast
qed

text \<open>
  The claim as the specification states it (a negative number fails with a
  \<^verbatim>\<open>RangeError\<close>) is false: \<open>-1\<close> is written as \<^verbatim>\<open>0000000000-1\<close>, decoded to six
  bytes, and read back as 255.
\<close>

theorem numberToUint8Arr_counterexample:
  "numberToUint8Arr (- 1) = Inr [0, 0, 0, 0, 0, 0xFF] \<and>
   uint8ArrToNumber [0, 0, 0, 0, 0, 0xFF] = Inr 255"
  by (simp add: numberToUint8Arr_minus_one uint8ArrToNumber_def readUIntBE_def be_nat_def)

section \<open>Concatenation\<close>

text \<open>
  C10. For references to allocated arrays, \<^verbatim>\<open>xConcat\<close> returns a new array whose
  length is the sum of the arguments' lengths and whose content is the arguments' bytes
  from left to right, in the order of the arguments and without gaps; with no argument
  the result is the empty array; every array that existed before the call, so every
  argument, is unchanged after it.
\<close>

theorem xConcat_layout:
  "(\<forall>r\<in>set arrays. r < next_ref h) \<longrightarrow>
     (\<exists>result h'. xConcat arrays h = Inr (result, h') \<and>
        length (mem h' result) = sum_list (map (\<lambda>r. length (mem h r)) arrays) \<and>
        mem h' result = concat (map (mem h) arrays) \<and>
        (arrays = [] \<longrightarrow> mem h' result = []) \<and>
        result = next_ref h \<and>
        (\<forall>r. r < next_ref h \<longrightarrow> mem h' r = mem h r))"
proof
  assume a: "\<forall>r\<in>set arrays. r < next_ref h"
  obtain h' where h': "xConcat arrays h = Inr (next_ref h, h')"
      "mem h' (next_ref h) = concat (map (mem h) arrays)"
      "\<forall>r. r < next_ref h \<longrightarrow> mem h' r = mem h r"
    using xConcat_result [OF a] by blast
  have "length (mem h' (next_ref h)) = sum_list (map (\<lambda>r. length (mem h r)) arrays)"
    by (simp only: h'(2) sum_list_lengths)
  moreover have "arrays = [] \<longrightarrow> mem h' (next_ref h) = []"
    by (simp add: h'(2))
  ultimately show "\<exists>result h'. xConcat arrays h = Inr (result, h') \<and>
        length (mem h' result) = sum_list (map (\<lambda>r. length (mem h r)) arrays) \<and>
        mem h' result = concat (map (mem h) arrays) \<and>
        (arrays = [] \<longrightarrow> mem h' result = []) \<and>
        result = next_ref h \<and>
        (\<forall>r. r < next_ref h \<longrightarrow> mem h' r = mem h r)"
    using h' by blast
qed

theorem xConcat_layout_witness:
  "(\<exists>result h'.
      xConcat [0, 2, 0] three_arrays = Inr (result, h') \<and>
      mem h' result = [1, 2, 3, 1, 2] \<and> length (mem h' result) = 5 \<and>
      mem h' 0 = [1, 2] \<and> mem h' 1 = [] \<and> mem h' 2 = [3]) \<and>
   (\<exists>result h'.
      xConcat [] three_arrays = Inr (result, h') \<and>
      mem h' result = [] \<and> mem h' 0 = [1, 2])"
proof -
  define h where "h = three_arrays"
  have nx: "next_ref h = 3" by (simp add: h_def three_arrays_def)
  have m: "mem h 0 = [1, 2]" "mem h (Suc 0) = []" "mem h 2 = [3]"
    by (simp_all add: h_def three_arrays_def)
  have a: "\<forall>r\<in>set [0, 2, 0]. r < next_ref h" by (simp add: nx)
  have b: "\<forall>r\<in>set []. r < next_ref h" by simp
  from xConcat_layout [of "[0, 2, 0]" h] a
  obtain result h' where r: "xConcat [0, 2, 0] h = Inr (result, h')"
      "mem h' result = concat (map (mem h) [0, 2, 0])"
      "\<forall>r. r < next_ref h \<longrightarrow> mem h' r = mem h r"
    by blast
  from xConcat_layout [of "[]" h] b
  obtain result0 h0 where r0: "xConcat [] h = Inr (result0, h0)"
      "mem h0 result0 = concat (map (mem h) [])"
      "\<forall>r. r < next_ref h \<longrightarrow> mem h0 r = mem h r"
    by blast
  have c: "mem h' result = [1, 2, 3, 1, 2]" using r(2) by (simp add: m)
  have k: "mem h' 0 = [1, 2]" "mem h' 1 = []" "mem h' 2 = [3]"
    using r(3) by (simp_all add: nx m)
  have k0: "mem h0 result0 = []" "mem h0 0 = [1, 2]"
    using r0(2,3) by (simp_all add: nx m)
  have "\<exists>result h'. xConcat [0, 2, 0] h = Inr (result, h') \<and>
      mem h' result = [1, 2, 3, 1, 2] \<and> length (mem h' result) = 5 \<and>
      mem h' 0 = [1, 2] \<and> mem h' 1 = [] \<and> mem h' 2 = [3]"
    using r(1) c k by (intro exI [of _ result] exI [of _ h']) simp
  moreover have "\<exists>result h'. xConcat [] h = Inr (result, h') \<and>
      mem h' result = [] \<and> mem h' 0 = [1, 2]"
    using r0(1) k0 by (intro exI [of _ result0] exI [of _ h0]) simp
  ultimately show ?thesis unfolding h_def by (rule conjI)
qed

end
